theory Spec2Isabelle
  imports Main "HOL-Library.Sublist"
begin

section \<open>Glyph outlines and the vertex stream of \<^verbatim>\<open>main.cpp\<close>\<close>

text \<open>
  The development embeds \<^verbatim>\<open>insertGlyphCharacter\<close> and \<^verbatim>\<open>insertString\<close> of
  \<^verbatim>\<open>graphics_assig_3_1/main.cpp\<close>.

  Coordinates are C++ \<^verbatim>\<open>float\<close>s. The two functions only add and multiply them, so the
  number type is left abstract: any type with \<open>+\<close>, \<open>*\<close> and \<open>0\<close>, with no law assumed
  about them. Every theorem below therefore holds for whatever the machine addition and
  multiplication compute, and none relies on associativity, commutativity or \<open>0 + a = a\<close>.
\<close>

subsection \<open>Data\<close>

text \<open>The enumeration \<^verbatim>\<open>enum BezierCurve { CUBIC, QUADRATIC }\<close>.\<close>

datatype BezierCurve = CUBIC | QUADRATIC

text \<open>
  Modelled from the spec: the outline types \<^verbatim>\<open>MySegment\<close>, \<^verbatim>\<open>MyContour\<close> and \<^verbatim>\<open>MyGlyph\<close>
  of \<^verbatim>\<open>fonts/GlyphExtractor.h\<close>, a header that is not among the source files. A segment
  has a degree and an ordered sequence of control points; \<^verbatim>\<open>main.cpp\<close> reads them as
  \<^verbatim>\<open>mySegment.degree\<close>, \<^verbatim>\<open>mySegment.x[k]\<close> and \<^verbatim>\<open>mySegment.y[k]\<close>. A contour is an ordered
  sequence of segments (\<^verbatim>\<open>myContour[j]\<close>, \<^verbatim>\<open>myContour.size()\<close>); a glyph is an ordered
  sequence of contours (\<^verbatim>\<open>myGlyph.contours\<close>) and an advance (\<^verbatim>\<open>myGlyph.advance\<close>). How many
  coordinates a segment stores is left open: a read past them is a fault of the model.
\<close>

record 'a MySegment =
  x :: "'a list"
  y :: "'a list"
  degree :: int

type_synonym 'a MyContour = "'a MySegment list"

record 'a MyGlyph =
  contours :: "'a MyContour list"
  advance :: 'a

type_synonym 'a vec2 = "'a \<times> 'a"

text \<open>
  The process-wide variables the two functions read or write: the vertex buffer
  \<^verbatim>\<open>vertices\<close>, the glyph last extracted \<^verbatim>\<open>myGlyph\<close>, and the session parameters
  \<^verbatim>\<open>bezierType\<close>, \<^verbatim>\<open>fontShiftBy\<close>, \<^verbatim>\<open>fontYShiftBy\<close>, \<^verbatim>\<open>fontScaleBy\<close>.
\<close>

record 'a globals =
  vertices :: "'a vec2 list"
  myGlyph :: "'a MyGlyph"
  bezierType :: BezierCurve
  fontShiftBy :: 'a
  fontYShiftBy :: 'a
  fontScaleBy :: 'a

text \<open>
  What C++ leaves undefined is a result of its own: an index past the end of a
  coordinate array or of the character buffer, a read of a buffer cell that was never
  written, a signed addition that leaves the range of \<^verbatim>\<open>int\<close>, an array declared with a
  size that is not positive, and a copy that writes past the end of its destination.
\<close>

datatype fault =
  ArrayOutOfBounds | UninitialisedRead | IntegerOverflow | BadArraySize | BufferOverflow

text \<open>
  The patch size the renderer sets with \<^verbatim>\<open>glPatchParameteri(GL_PATCH_VERTICES, _)\<close> is 3 in
  a quadratic session and 4 in a cubic one: the target degree plus one.
\<close>

definition targetDegree :: "BezierCurve \<Rightarrow> nat" where
  "targetDegree bt = (case bt of CUBIC \<Rightarrow> 3 | QUADRATIC \<Rightarrow> 2)"

subsection \<open>\<^verbatim>\<open>insertGlyphCharacter\<close>\<close>

text \<open>
  The expression every \<^verbatim>\<open>push_back\<close> of the function builds:
  \<^verbatim>\<open>vec2((mySegment.x[k] + advance + shiftToCentre) * scaleToFit,
        (mySegment.y[k] + fontYShiftBy) * scaleToFit)\<close>.
\<close>

definition vertexAt ::
  "'a::{plus,times} MySegment \<Rightarrow> nat \<Rightarrow> 'a \<Rightarrow> 'a \<Rightarrow> 'a \<Rightarrow> 'a globals \<Rightarrow> fault + 'a vec2" where
  "vertexAt mySegment k adv shiftToCentre scaleToFit s =
     (if k < length (x mySegment) \<and> k < length (y mySegment)
      then Inr ((x mySegment ! k + adv + shiftToCentre) * scaleToFit,
                (y mySegment ! k + fontYShiftBy s) * scaleToFit)
      else Inl ArrayOutOfBounds)"

definition push_back :: "'a vec2 \<Rightarrow> 'a globals \<Rightarrow> 'a globals" where
  "push_back v s = s\<lparr>vertices := vertices s @ [v]\<rparr>"

text \<open>The body of the innermost loop, for one index \<open>k\<close>: the three-way branch.\<close>

definition pointStep ::
  "'a::{plus,times} MySegment \<Rightarrow> 'a \<Rightarrow> 'a \<Rightarrow> 'a \<Rightarrow> nat \<Rightarrow> 'a globals \<Rightarrow> fault + 'a globals" where
  "pointStep mySegment adv shiftToCentre scaleToFit k s =
     (case vertexAt mySegment k adv shiftToCentre scaleToFit s of
        Inl f \<Rightarrow> Inl f
      | Inr v \<Rightarrow>
          if degree mySegment = 1 \<and> bezierType s = CUBIC
          then Inr (push_back v (push_back v s))
          else if degree mySegment = 1 \<and> bezierType s = QUADRATIC
          then Inr (push_back v (if k = 0 then push_back v s else s))
          else Inr (push_back v s))"

text \<open>\<^verbatim>\<open>for (int k = 0; k <= mySegment.degree; k++)\<close>, entered at index \<open>k\<close>.\<close>

function segmentLoop ::
  "'a::{plus,times} MySegment \<Rightarrow> 'a \<Rightarrow> 'a \<Rightarrow> 'a \<Rightarrow> nat \<Rightarrow> 'a globals \<Rightarrow> fault + 'a globals" where
  "segmentLoop mySegment adv shiftToCentre scaleToFit k s =
     (if int k \<le> degree mySegment
      then (case pointStep mySegment adv shiftToCentre scaleToFit k s of
              Inl f \<Rightarrow> Inl f
            | Inr s' \<Rightarrow> segmentLoop mySegment adv shiftToCentre scaleToFit (Suc k) s')
      else Inr s)"
  by pat_completeness auto
termination
  by (relation "measure (\<lambda>(mySegment, adv, shiftToCentre, scaleToFit, k, s).
        nat (degree mySegment + 1) - k)") auto

declare segmentLoop.simps [simp del]

text \<open>
  \<^verbatim>\<open>for (int j = 0; j < myContour.size(); j++)\<close>: the segments of a contour in order.
\<close>

fun contourLoop ::
  "'a::{plus,times} MyContour \<Rightarrow> 'a \<Rightarrow> 'a \<Rightarrow> 'a \<Rightarrow> 'a globals \<Rightarrow> fault + 'a globals" where
  "contourLoop [] adv shiftToCentre scaleToFit s = Inr s"
| "contourLoop (mySegment # rest) adv shiftToCentre scaleToFit s =
     (case segmentLoop mySegment adv shiftToCentre scaleToFit 0 s of
        Inl f \<Rightarrow> Inl f
      | Inr s' \<Rightarrow> contourLoop rest adv shiftToCentre scaleToFit s')"

text \<open>
  \<^verbatim>\<open>for (int i = 0; i < myGlyph.contours.size(); i++)\<close>: the contours of the glyph in order.
\<close>

fun glyphLoop ::
  "'a::{plus,times} MyContour list \<Rightarrow> 'a \<Rightarrow> 'a \<Rightarrow> 'a \<Rightarrow> 'a globals \<Rightarrow> fault + 'a globals" where
  "glyphLoop [] adv shiftToCentre scaleToFit s = Inr s"
| "glyphLoop (myContour # rest) adv shiftToCentre scaleToFit s =
     (case contourLoop myContour adv shiftToCentre scaleToFit s of
        Inl f \<Rightarrow> Inl f
      | Inr s' \<Rightarrow> glyphLoop rest adv shiftToCentre scaleToFit s')"

text \<open>
  The function itself. \<^verbatim>\<open>glyphExtractor.ExtractGlyph\<close> belongs to the font library; it is
  the parameter \<open>ExtractGlyph\<close>, the outline the loaded font gives for a character code.
  The result is the returned \<^verbatim>\<open>myGlyph.advance\<close> and the globals after the call.
\<close>

definition insertGlyphCharacter ::
  "(char \<Rightarrow> 'a::{plus,times} MyGlyph) \<Rightarrow> char \<Rightarrow> 'a \<Rightarrow> 'a \<Rightarrow> 'a \<Rightarrow> 'a globals
     \<Rightarrow> fault + ('a \<times> 'a globals)" where
  "insertGlyphCharacter ExtractGlyph charToInsert adv shiftToCentre scaleToFit s =
     (let s1 = s\<lparr>myGlyph := ExtractGlyph charToInsert\<rparr> in
      case glyphLoop (contours (myGlyph s1)) adv shiftToCentre scaleToFit s1 of
        Inl f \<Rightarrow> Inl f
      | Inr s2 \<Rightarrow> Inr (advance (myGlyph s2), s2))"

subsection \<open>\<^verbatim>\<open>insertString\<close>\<close>

definition NUL :: char where
  "NUL = CHR 0x00"

definition INT_MAX :: int where
  "INT_MAX = 2147483647"

text \<open>
  \<^verbatim>\<open>int textLenght = text.length();\<close>
  The length of the string is an unsigned number; the conversion to the 32-bit \<^verbatim>\<open>int\<close>
  keeps its value modulo \<open>2^32\<close> in the range from \<open>- 2^31\<close> to \<open>2^31 - 1\<close>. For a text
  shorter than \<open>2^31\<close> characters that is the length itself.
\<close>

definition textLenght_of :: "string \<Rightarrow> int" where
  "textLenght_of text = (int (length text) + 2147483648) mod 4294967296 - 2147483648"

text \<open>
  \<^verbatim>\<open>char textCharArr[textLenght + 1]; strcpy(textCharArr, text.c_str());\<close>
  The sum \<^verbatim>\<open>textLenght + 1\<close> overflows when \<^verbatim>\<open>textLenght\<close> is the largest \<^verbatim>\<open>int\<close>, and the
  array needs a positive size. It then has \<^verbatim>\<open>textLenght + 1\<close> cells, none of them
  written. \<^verbatim>\<open>strcpy\<close> writes the characters of the text up to its first NUL, and that
  NUL, which is the terminator \<^verbatim>\<open>c_str()\<close> appends unless the text holds one of its own;
  it writes past the array when the array has fewer cells than that. The cells behind
  the copied characters stay unwritten (\<open>None\<close>).
\<close>

definition textCharArr :: "int \<Rightarrow> string \<Rightarrow> fault + char option list" where
  "textCharArr textLenght text =
     (if textLenght = INT_MAX then Inl IntegerOverflow
      else if textLenght + 1 \<le> 0 then Inl BadArraySize
      else
        (let copied = takeWhile (\<lambda>c. c \<noteq> NUL) text @ [NUL]
         in if textLenght + 1 < int (length copied) then Inl BufferOverflow
            else Inr (map Some copied @ replicate (nat (textLenght + 1) - length copied) None)))"

definition readChar :: "char option list \<Rightarrow> nat \<Rightarrow> fault + char" where
  "readChar buf i =
     (if i < length buf
      then (case buf ! i of None \<Rightarrow> Inl UninitialisedRead | Some c \<Rightarrow> Inr c)
      else Inl ArrayOutOfBounds)"

text \<open>
  \<^verbatim>\<open>for (int i = 1; i < textLenght; i++)
      advanceBy += insertGlyphCharacter(textCharArr[i], advanceBy, fontShiftBy, fontScaleBy);\<close>
  entered at index \<open>i\<close> with the local \<^verbatim>\<open>advanceBy\<close>. The index stays below
  \<^verbatim>\<open>textLenght\<close>, so its increment never overflows. The loop hands back the local and the
  globals it ends with.
\<close>

function stringLoop ::
  "(char \<Rightarrow> 'a::{plus,times} MyGlyph) \<Rightarrow> char option list \<Rightarrow> int \<Rightarrow> nat \<Rightarrow> 'a \<Rightarrow> 'a globals
     \<Rightarrow> fault + ('a \<times> 'a globals)" where
  "stringLoop ExtractGlyph buf textLenght i advanceBy s =
     (if int i < textLenght
      then (case readChar buf i of
              Inl f \<Rightarrow> Inl f
            | Inr c \<Rightarrow>
                (case insertGlyphCharacter ExtractGlyph c advanceBy (fontShiftBy s) (fontScaleBy s) s of
                   Inl f \<Rightarrow> Inl f
                 | Inr (a, s') \<Rightarrow>
                     stringLoop ExtractGlyph buf textLenght (Suc i) (advanceBy + a) s'))
      else Inr (advanceBy, s))"
  by pat_completeness auto
termination
  by (relation "measure (\<lambda>(ExtractGlyph, buf, textLenght, i, advanceBy, s).
        nat textLenght - i)") auto

declare stringLoop.simps [simp del]

text \<open>
  The body of \<^verbatim>\<open>insertString\<close> up to its closing brace: the value of the local
  \<^verbatim>\<open>advanceBy\<close> there, and the globals.
\<close>

definition insertString_body ::
  "(char \<Rightarrow> 'a::{plus,times,zero} MyGlyph) \<Rightarrow> string \<Rightarrow> 'a globals \<Rightarrow> fault + ('a \<times> 'a globals)" where
  "insertString_body ExtractGlyph text s =
     (let textLenght = textLenght_of text
      in case textCharArr textLenght text of
           Inl f \<Rightarrow> Inl f
         | Inr buf \<Rightarrow>
             (case readChar buf 0 of
                Inl f \<Rightarrow> Inl f
              | Inr c \<Rightarrow>
                  (case insertGlyphCharacter ExtractGlyph c 0 (fontShiftBy s) (fontScaleBy s) s of
                     Inl f \<Rightarrow> Inl f
                   | Inr (advanceBy, s') \<Rightarrow>
                       stringLoop ExtractGlyph buf textLenght 1 advanceBy s')))"

text \<open>
  \<^verbatim>\<open>void insertString(string text)\<close>: the function returns no value; what a caller has
  after it are the globals. The local \<^verbatim>\<open>advanceBy\<close> is dropped.
\<close>

definition insertString ::
  "(char \<Rightarrow> 'a::{plus,times,zero} MyGlyph) \<Rightarrow> string \<Rightarrow> 'a globals \<Rightarrow> fault + 'a globals" where
  "insertString ExtractGlyph text s =
     (case insertString_body ExtractGlyph text s of Inl f \<Rightarrow> Inl f | Inr (advanceBy, s') \<Rightarrow> Inr s')"

subsection \<open>What a run appends, in closed form\<close>

text \<open>
  The definitions of this subsection are not in the source: they name what the loops
  compute, and the lemmas further down prove that the loops compute exactly that.
\<close>

text \<open>A segment whose loop stays inside both coordinate arrays.\<close>

definition seg_ok :: "'a MySegment \<Rightarrow> bool" where
  "seg_ok seg = (degree seg < int (length (x seg)) \<and> degree seg < int (length (y seg)))"

definition contour_ok :: "'a MyContour \<Rightarrow> bool" where
  "contour_ok c = list_all seg_ok c"

definition glyph_ok :: "'a MyGlyph \<Rightarrow> bool" where
  "glyph_ok g = list_all contour_ok (contours g)"

definition appended :: "'a vec2 list \<Rightarrow> 'a globals \<Rightarrow> 'a globals" where
  "appended vs s = s\<lparr>vertices := vertices s @ vs\<rparr>"

definition vertexOf ::
  "'a::{plus,times} MySegment \<Rightarrow> 'a \<Rightarrow> 'a \<Rightarrow> 'a \<Rightarrow> 'a \<Rightarrow> nat \<Rightarrow> 'a vec2" where
  "vertexOf seg adv sh sc ysh k = ((x seg ! k + adv + sh) * sc, (y seg ! k + ysh) * sc)"

definition pointsAt ::
  "BezierCurve \<Rightarrow> 'a::{plus,times} MySegment \<Rightarrow> 'a \<Rightarrow> 'a \<Rightarrow> 'a \<Rightarrow> 'a \<Rightarrow> nat \<Rightarrow> 'a vec2 list" where
  "pointsAt bt seg adv sh sc ysh k =
     (if degree seg = 1 \<and> bt = CUBIC
      then [vertexOf seg adv sh sc ysh k, vertexOf seg adv sh sc ysh k]
      else if degree seg = 1 \<and> bt = QUADRATIC \<and> k = 0
      then [vertexOf seg adv sh sc ysh k, vertexOf seg adv sh sc ysh k]
      else [vertexOf seg adv sh sc ysh k])"

definition segmentPoints ::
  "BezierCurve \<Rightarrow> 'a::{plus,times} \<Rightarrow> 'a \<Rightarrow> 'a \<Rightarrow> 'a \<Rightarrow> 'a MySegment \<Rightarrow> 'a vec2 list" where
  "segmentPoints bt adv sh sc ysh seg =
     concat (map (pointsAt bt seg adv sh sc ysh) [0..<nat (degree seg + 1)])"

definition contourPoints ::
  "BezierCurve \<Rightarrow> 'a::{plus,times} \<Rightarrow> 'a \<Rightarrow> 'a \<Rightarrow> 'a \<Rightarrow> 'a MyContour \<Rightarrow> 'a vec2 list" where
  "contourPoints bt adv sh sc ysh c = concat (map (segmentPoints bt adv sh sc ysh) c)"

definition glyphPoints ::
  "BezierCurve \<Rightarrow> 'a::{plus,times} \<Rightarrow> 'a \<Rightarrow> 'a \<Rightarrow> 'a \<Rightarrow> 'a MyGlyph \<Rightarrow> 'a vec2 list" where
  "glyphPoints bt adv sh sc ysh g = concat (map (contourPoints bt adv sh sc ysh) (contours g))"

text \<open>
  The characters of a text inserted one after the other with a running accumulator
  \<open>acc\<close>: each glyph is placed at the accumulator, with one shift and one scale for all
  of them, and its returned advance is added to the accumulator.
\<close>

fun emitFrom ::
  "(char \<Rightarrow> 'a::{plus,times} MyGlyph) \<Rightarrow> 'a \<Rightarrow> 'a \<Rightarrow> string \<Rightarrow> 'a \<Rightarrow> 'a globals
     \<Rightarrow> fault + ('a \<times> 'a globals)" where
  "emitFrom E sh sc [] acc s = Inr (acc, s)"
| "emitFrom E sh sc (c # cs) acc s =
     (case insertGlyphCharacter E c acc sh sc s of
        Inl f \<Rightarrow> Inl f
      | Inr (a, s') \<Rightarrow> emitFrom E sh sc cs (acc + a) s')"

subsection \<open>Sample outlines and sessions\<close>

definition lineSeg :: "int MySegment" where
  "lineSeg = \<lparr>x = [1, 5], y = [2, 7], degree = 1\<rparr>"

definition emptyGlyph :: "int MyGlyph" where
  "emptyGlyph = \<lparr>contours = [], advance = 0\<rparr>"

definition cubicSession :: "int globals" where
  "cubicSession = \<lparr>vertices = [(9, 9)], myGlyph = emptyGlyph, bezierType = CUBIC,
     fontShiftBy = 100, fontYShiftBy = 3, fontScaleBy = 2\<rparr>"

definition lineSeg2 :: "int MySegment" where
  "lineSeg2 = \<lparr>x = [5, 8], y = [7, 1], degree = 1\<rparr>"

definition quadSession :: "int globals" where
  "quadSession = \<lparr>vertices = [(9, 9)], myGlyph = emptyGlyph, bezierType = QUADRATIC,
     fontShiftBy = 100, fontYShiftBy = 3, fontScaleBy = 2\<rparr>"

definition quadSeg :: "int MySegment" where
  "quadSeg = \<lparr>x = [1, 3, 5], y = [2, 8, 2], degree = 2\<rparr>"

definition quadGlyph :: "int MyGlyph" where
  "quadGlyph = \<lparr>contours = [[quadSeg], [quadSeg]], advance = 6\<rparr>"

definition mixedGlyph :: "int MyGlyph" where
  "mixedGlyph = \<lparr>contours = [[lineSeg, quadSeg]], advance = 4\<rparr>"

definition notdefGlyph :: "int MyGlyph" where
  "notdefGlyph = \<lparr>contours = [[lineSeg]], advance = 7\<rparr>"

definition sampleFont :: "char \<Rightarrow> int MyGlyph" where
  "sampleFont c =
     (if c = CHR ''A'' then mixedGlyph else if c = CHR ''B'' then quadGlyph else notdefGlyph)"

definition narrowFont :: "char \<Rightarrow> int MyGlyph" where
  "narrowFont c = \<lparr>contours = [], advance = (if c = CHR ''A'' then 1 else 2)\<rparr>"

definition wideFont :: "char \<Rightarrow> int MyGlyph" where
  "wideFont c = \<lparr>contours = [], advance = (if c = CHR ''A'' then 5 else 2)\<rparr>"

definition twoLineGlyph :: "int MyGlyph" where
  "twoLineGlyph = \<lparr>contours = [[lineSeg, lineSeg2]], advance = 9\<rparr>"

definition linesFont :: "char \<Rightarrow> int MyGlyph" where
  "linesFont c = twoLineGlyph"

lemmas sample_defs =
  sampleFont_def notdefGlyph_def mixedGlyph_def quadGlyph_def quadSeg_def lineSeg_def lineSeg2_def
  quadSession_def cubicSession_def emptyGlyph_def twoLineGlyph_def linesFont_def

section \<open>The loops compute the closed form\<close>

lemma appended_simps [simp]:
  "vertices (appended vs s) = vertices s @ vs"
  "myGlyph (appended vs s) = myGlyph s"
  "bezierType (appended vs s) = bezierType s"
  "fontShiftBy (appended vs s) = fontShiftBy s"
  "fontYShiftBy (appended vs s) = fontYShiftBy s"
  "fontScaleBy (appended vs s) = fontScaleBy s"
  by (simp_all add: appended_def)

lemma appended_appended [simp]: "appended ws (appended vs s) = appended (vs @ ws) s"
  by (simp add: appended_def)

lemma appended_Nil [simp]: "appended [] s = s"
  by (simp add: appended_def)

lemma pointStep_ok:
  "k < length (x seg) \<Longrightarrow> k < length (y seg) \<Longrightarrow>
   pointStep seg adv sh sc k s =
     Inr (appended (pointsAt (bezierType s) seg adv sh sc (fontYShiftBy s) k) s)"
  by (simp add: pointStep_def vertexAt_def pointsAt_def vertexOf_def push_back_def appended_def)

lemma pointStep_fault:
  "\<not> (k < length (x seg) \<and> k < length (y seg)) \<Longrightarrow>
   pointStep seg adv sh sc k s = Inl ArrayOutOfBounds"
  by (simp add: pointStep_def vertexAt_def)

lemma segmentLoop_from:
  "seg_ok seg \<Longrightarrow> k \<le> nat (degree seg + 1) \<Longrightarrow>
   segmentLoop seg adv sh sc k s =
     Inr (appended (concat (map (pointsAt (bezierType s) seg adv sh sc (fontYShiftBy s))
                      [k..<nat (degree seg + 1)])) s)"
proof (induction seg adv sh sc k s rule: segmentLoop.induct)
  case (1 seg adv sh sc k s)
  show ?case
  proof (cases "int k \<le> degree seg")
    case True
    then have inr: "k < length (x seg)" "k < length (y seg)"
      using "1.prems"(1) by (auto simp: seg_ok_def)
    let ?s' = "appended (pointsAt (bezierType s) seg adv sh sc (fontYShiftBy s) k) s"
    have step: "pointStep seg adv sh sc k s = Inr ?s'"
      using inr by (rule pointStep_ok)
    have le: "Suc k \<le> nat (degree seg + 1)" using True by linarith
    have ih: "segmentLoop seg adv sh sc (Suc k) ?s' =
       Inr (appended (concat (map (pointsAt (bezierType ?s') seg adv sh sc (fontYShiftBy ?s'))
                      [Suc k..<nat (degree seg + 1)])) ?s')"
      using "1.IH"[OF True step "1.prems"(1) le] .
    have upt: "[k..<nat (degree seg + 1)] = k # [Suc k..<nat (degree seg + 1)]"
      using le by (simp add: upt_conv_Cons)
    show ?thesis
      by (subst segmentLoop.simps) (simp add: True step ih upt)
  next
    case False
    then have "k = nat (degree seg + 1)" using "1.prems"(2) by linarith
    then show ?thesis using False by (subst segmentLoop.simps) simp
  qed
qed

lemma segmentLoop_fault_from:
  "\<not> seg_ok seg \<Longrightarrow> k \<le> min (length (x seg)) (length (y seg)) \<Longrightarrow>
   segmentLoop seg adv sh sc k s = Inl ArrayOutOfBounds"
proof (induction seg adv sh sc k s rule: segmentLoop.induct)
  case (1 seg adv sh sc k s)
  have run: "int k \<le> degree seg"
    using "1.prems" by (auto simp: seg_ok_def)
  show ?case
  proof (cases "k < min (length (x seg)) (length (y seg))")
    case True
    let ?s' = "appended (pointsAt (bezierType s) seg adv sh sc (fontYShiftBy s) k) s"
    have step: "pointStep seg adv sh sc k s = Inr ?s'"
      using True by (simp add: pointStep_ok)
    have "segmentLoop seg adv sh sc (Suc k) ?s' = Inl ArrayOutOfBounds"
      using "1.IH"[OF run step "1.prems"(1)] True by simp
    then show ?thesis
      by (subst segmentLoop.simps) (simp add: run step)
  next
    case False
    then have "\<not> (k < length (x seg) \<and> k < length (y seg))" by auto
    then have "pointStep seg adv sh sc k s = Inl ArrayOutOfBounds"
      by (rule pointStep_fault)
    then show ?thesis
      by (subst segmentLoop.simps) (simp add: run)
  qed
qed

text \<open>
  The innermost loop, run from index 0: it stays inside the arrays exactly when the
  segment is \<open>seg_ok\<close>, and then appends \<open>segmentPoints\<close> and changes nothing else.
\<close>

lemma segmentLoop_eq:
  "segmentLoop seg adv sh sc 0 s =
     (if seg_ok seg
      then Inr (appended (segmentPoints (bezierType s) adv sh sc (fontYShiftBy s) seg) s)
      else Inl ArrayOutOfBounds)"
  by (simp add: segmentLoop_from segmentLoop_fault_from segmentPoints_def)

lemma contourLoop_eq:
  "contourLoop c adv sh sc s =
     (if contour_ok c
      then Inr (appended (contourPoints (bezierType s) adv sh sc (fontYShiftBy s) c) s)
      else Inl ArrayOutOfBounds)"
proof (induction c arbitrary: s)
  case Nil
  show ?case by (simp add: contour_ok_def contourPoints_def)
next
  case (Cons seg c)
  show ?case
    by (simp add: segmentLoop_eq Cons.IH contour_ok_def contourPoints_def)
qed

lemma glyphLoop_eq:
  "glyphLoop cs adv sh sc s =
     (if list_all contour_ok cs
      then Inr (appended (concat (map (contourPoints (bezierType s) adv sh sc (fontYShiftBy s)) cs)) s)
      else Inl ArrayOutOfBounds)"
proof (induction cs arbitrary: s)
  case Nil
  show ?case by simp
next
  case (Cons c cs)
  show ?case
    by (simp add: contourLoop_eq Cons.IH)
qed

lemma insertGlyphCharacter_eq:
  "insertGlyphCharacter E c adv sh sc s =
     (if glyph_ok (E c)
      then Inr (advance (E c),
                appended (glyphPoints (bezierType s) adv sh sc (fontYShiftBy s) (E c))
                  (s\<lparr>myGlyph := E c\<rparr>))
      else Inl ArrayOutOfBounds)"
  by (simp add: insertGlyphCharacter_def glyphLoop_eq glyph_ok_def glyphPoints_def)

lemma segmentPoints_line_cubic:
  "degree seg = 1 \<Longrightarrow>
   segmentPoints CUBIC adv sh sc ysh seg = map (vertexOf seg adv sh sc ysh) [0, 0, 1, 1]"
  by (simp add: segmentPoints_def pointsAt_def upt_conv_Cons)

lemma line_cubic_segmentLoop:
  assumes "bezierType s = CUBIC" and "degree seg = 1"
    and "2 \<le> length (x seg)" and "2 \<le> length (y seg)"
  shows "segmentLoop seg adv sh sc 0 s =
     Inr (s\<lparr>vertices := vertices s @
            map (\<lambda>k. ((x seg ! k + adv + sh) * sc, (y seg ! k + fontYShiftBy s) * sc))
              [0, 0, 1, 1]\<rparr>)"
proof -
  have ok: "seg_ok seg" using assms by (simp add: seg_ok_def)
  show ?thesis
    using assms(1,2) ok
    by (simp add: segmentLoop_eq segmentPoints_line_cubic vertexOf_def appended_def)
qed

lemma segmentPoints_line_quadratic:
  "degree seg = 1 \<Longrightarrow>
   segmentPoints QUADRATIC adv sh sc ysh seg = map (vertexOf seg adv sh sc ysh) [0, 0, 1]"
  by (simp add: segmentPoints_def pointsAt_def upt_conv_Cons)

lemma contourLoop_append:
  "contourLoop (a @ b) adv sh sc s =
     (case contourLoop a adv sh sc s of
        Inl f \<Rightarrow> Inl f
      | Inr s1 \<Rightarrow> contourLoop b adv sh sc s1)"
  by (induction a arbitrary: s) (simp_all split: sum.splits)

lemma contourLoop_keeps:
  "contourLoop c adv sh sc s = Inr s1 \<Longrightarrow>
   bezierType s1 = bezierType s \<and> fontYShiftBy s1 = fontYShiftBy s"
  by (auto simp: contourLoop_eq split: if_splits)

lemma line_quadratic_segmentLoop:
  assumes "bezierType s = QUADRATIC" and "degree seg = 1"
    and "2 \<le> length (x seg)" and "2 \<le> length (y seg)"
  shows "segmentLoop seg adv sh sc 0 s =
     Inr (s\<lparr>vertices := vertices s @
            map (\<lambda>k. ((x seg ! k + adv + sh) * sc, (y seg ! k + fontYShiftBy s) * sc))
              [0, 0, 1]\<rparr>)"
proof -
  have ok: "seg_ok seg" using assms by (simp add: seg_ok_def)
  show ?thesis
    using assms(1,2) ok
    by (simp add: segmentLoop_eq segmentPoints_line_quadratic vertexOf_def appended_def)
qed

lemma glyphPoints_concat:
  "glyphPoints bt adv sh sc ysh g =
     concat (map (segmentPoints bt adv sh sc ysh) (concat (contours g)))"
proof -
  have cp: "contourPoints bt adv sh sc ysh =
      (\<lambda>c. concat (map (segmentPoints bt adv sh sc ysh) c))"
    by (simp add: fun_eq_iff contourPoints_def)
  have gen: "concat (map (\<lambda>c. concat (map f c)) cs) = concat (map f (concat cs))"
    for f :: "'a MySegment \<Rightarrow> 'a vec2 list" and cs
    by (induction cs) simp_all
  show ?thesis
    unfolding glyphPoints_def cp by (rule gen)
qed

lemma list_all_concat_iff: "list_all P (concat xss) = list_all (list_all P) xss"
  by (induction xss) simp_all

lemma glyph_ok_concat: "glyph_ok g = list_all seg_ok (concat (contours g))"
proof -
  have "list_all contour_ok cs = list_all seg_ok (concat cs)" for cs :: "'a MyContour list"
    by (induction cs) (simp_all add: contour_ok_def)
  then show ?thesis
    by (simp only: glyph_ok_def)
qed

lemma targetDegree_cases: "targetDegree bt = 2 \<or> targetDegree bt = 3"
  by (cases bt) (simp_all add: targetDegree_def)

lemma segmentPoints_native:
  assumes "degree seg = int (targetDegree bt)"
  shows "segmentPoints bt adv sh sc ysh seg =
     map (vertexOf seg adv sh sc ysh) [0..<targetDegree bt + 1]"
proof -
  have ne: "degree seg \<noteq> 1" using assms targetDegree_cases[of bt] by auto
  have n: "nat (degree seg + 1) = targetDegree bt + 1" using assms by simp
  have one: "pointsAt bt seg adv sh sc ysh = (\<lambda>k. [vertexOf seg adv sh sc ysh k])"
    using ne by (simp add: fun_eq_iff pointsAt_def)
  have "concat (map (\<lambda>k. [vertexOf seg adv sh sc ysh k]) ks) = map (vertexOf seg adv sh sc ysh) ks"
    for ks by (induction ks) simp_all
  then show ?thesis
    by (simp add: segmentPoints_def one n)
qed

lemma length_segmentPoints:
  assumes "degree seg = 1 \<or> degree seg = int (targetDegree bt)"
  shows "length (segmentPoints bt adv sh sc ysh seg) = targetDegree bt + 1"
proof (cases "degree seg = 1")
  case True
  then show ?thesis
    by (cases bt)
       (simp_all add: segmentPoints_line_cubic segmentPoints_line_quadratic targetDegree_def)
next
  case False
  then have "degree seg = int (targetDegree bt)" using assms by simp
  then show ?thesis by (simp add: segmentPoints_native)
qed

lemma length_concat_const:
  "list_all (\<lambda>seg. length (f seg) = n) segs \<Longrightarrow> length (concat (map f segs)) = length segs * n"
  by (induction segs) simp_all

subsection \<open>The character buffer and the loop over the text\<close>

lemma textLenght_of_small:
  "length text < 2147483648 \<Longrightarrow> textLenght_of text = int (length text)"
  by (simp add: textLenght_of_def)

text \<open>The buffer of a text shorter than \<open>2^31 - 1\<close> characters.\<close>

lemma textCharArr_small:
  assumes "length text < 2147483647"
  shows "textCharArr (textLenght_of text) text =
     Inr (map Some (takeWhile (\<lambda>c. c \<noteq> NUL) text @ [NUL]) @
          replicate (length text - length (takeWhile (\<lambda>c. c \<noteq> NUL) text)) None)"
proof -
  have len: "textLenght_of text = int (length text)"
    using assms by (simp add: textLenght_of_small)
  have le: "length (takeWhile (\<lambda>c. c \<noteq> NUL) text) \<le> length text"
    by (rule length_takeWhile_le)
  show ?thesis
    using assms le by (simp add: len textCharArr_def INT_MAX_def Let_def nat_add_distrib)
qed

lemma length_textCharArr:
  assumes "length text < 2147483647"
  shows "\<exists>buf. textCharArr (textLenght_of text) text = Inr buf \<and> length buf = length text + 1"
proof -
  have "length (takeWhile (\<lambda>c. c \<noteq> NUL) text) \<le> length text"
    by (rule length_takeWhile_le)
  then show ?thesis
    by (simp add: textCharArr_small [OF assms])
qed

lemma readChar_first:
  assumes "textCharArr (textLenght_of text) text = Inr buf"
  shows "readChar buf 0 = Inr (hd (text @ [NUL]))"
proof -
  let ?copied = "takeWhile (\<lambda>c. c \<noteq> NUL) text @ [NUL]"
  have buf: "buf = map Some ?copied @
      replicate (nat (textLenght_of text + 1) - length ?copied) None"
    using assms by (simp add: textCharArr_def Let_def split: if_splits)
  have "\<exists>rest. ?copied = hd (text @ [NUL]) # rest"
    by (cases "text") auto
  then obtain rest where "?copied = hd (text @ [NUL]) # rest" ..
  then have "\<exists>more. buf = Some (hd (text @ [NUL])) # more"
    unfolding buf by simp
  then show ?thesis by (auto simp: readChar_def)
qed

lemma takeWhile_upto_last:
  assumes "NUL \<notin> set (butlast text)" and "i < length text"
  shows "i \<le> length (takeWhile (\<lambda>c. c \<noteq> NUL) text)
     \<and> (takeWhile (\<lambda>c. c \<noteq> NUL) text @ [NUL]) ! i = text ! i"
proof -
  let ?P = "\<lambda>c. c \<noteq> NUL"
  let ?n = "length (takeWhile ?P text)"
  have stop: "text ! ?n = NUL" if "?n < length text"
    using nth_length_takeWhile [OF that] by simp
  have far: "length text - 1 \<le> ?n"
  proof (rule ccontr)
    assume "\<not> length text - 1 \<le> ?n"
    then have lt: "?n < length (butlast text)" by simp
    then have "butlast text ! ?n = text ! ?n" by (simp add: nth_butlast)
    moreover have "butlast text ! ?n \<in> set (butlast text)" using lt by (rule nth_mem)
    moreover have "text ! ?n = NUL" using lt by (intro stop) simp
    ultimately show False using assms(1) by simp
  qed
  then have le: "i \<le> ?n" using assms(2) by simp
  have "(takeWhile ?P text @ [NUL]) ! i = text ! i"
  proof (cases "i < ?n")
    case True
    then show ?thesis by (simp add: nth_append takeWhile_nth)
  next
    case False
    then have "i = ?n" using le by simp
    then show ?thesis using stop assms(2) by (simp add: nth_append)
  qed
  with le show ?thesis by simp
qed

lemma readChar_written:
  assumes "length text < 2147483647" and "NUL \<notin> set (butlast text)" and "i < length text"
    and "textCharArr (textLenght_of text) text = Inr buf"
  shows "readChar buf i = Inr (text ! i)"
proof -
  let ?copied = "takeWhile (\<lambda>c. c \<noteq> NUL) text @ [NUL]"
  have buf: "buf = map Some ?copied @
      replicate (length text - length (takeWhile (\<lambda>c. c \<noteq> NUL) text)) None"
    using assms(4) by (simp add: textCharArr_small [OF assms(1)])
  have i: "i < length ?copied" and v: "?copied ! i = text ! i"
    using takeWhile_upto_last [OF assms(2,3)] by simp_all
  have "buf ! i = Some (text ! i)"
    unfolding buf using i v by (simp only: nth_append length_map if_True nth_map)
  moreover have "i < length buf" unfolding buf using i by simp
  ultimately show ?thesis by (simp add: readChar_def)
qed

lemma stringLoop_eq:
  assumes "length text < 2147483647" and "NUL \<notin> set (butlast text)"
    and "textCharArr (textLenght_of text) text = Inr buf"
  shows "i \<le> length text \<Longrightarrow>
   stringLoop E buf (int (length text)) i acc s =
     emitFrom E (fontShiftBy s) (fontScaleBy s) (drop i text) acc s"
proof (induction "length text - i" arbitrary: i acc s)
  case 0
  then have "i = length text" by simp
  then show ?case by (subst stringLoop.simps) simp
next
  case (Suc n)
  then have lt: "i < length text" by simp
  have rd: "readChar buf i = Inr (text ! i)"
    using assms(1,2) lt assms(3) by (rule readChar_written)
  have dr: "drop i text = text ! i # drop (Suc i) text"
    using lt by (simp add: Cons_nth_drop_Suc)
  show ?case
  proof (cases "glyph_ok (E (text ! i))")
    case False
    then show ?thesis
      by (subst stringLoop.simps) (simp add: lt rd dr insertGlyphCharacter_eq)
  next
    case True
    have n: "n = length text - Suc i" using Suc.hyps(2) by simp
    have le: "Suc i \<le> length text" using lt by simp
    note ih = Suc.hyps(1)[OF n le]
    show ?thesis
      by (subst stringLoop.simps) (simp add: lt rd dr insertGlyphCharacter_eq True ih)
  qed
qed

lemma insertString_body_Cons:
  assumes "length (c # cs) < 2147483647" and "NUL \<notin> set (butlast (c # cs))"
  shows "insertString_body E (c # cs) s =
     (case insertGlyphCharacter E c 0 (fontShiftBy s) (fontScaleBy s) s of
        Inl f \<Rightarrow> Inl f
      | Inr (a, s') \<Rightarrow> emitFrom E (fontShiftBy s) (fontScaleBy s) cs a s')"
proof -
  obtain buf where buf: "textCharArr (textLenght_of (c # cs)) (c # cs) = Inr buf"
    using length_textCharArr [OF assms(1)] by blast
  have len: "textLenght_of (c # cs) = int (length (c # cs))"
    using assms(1) by (simp add: textLenght_of_small)
  have rd: "readChar buf 0 = Inr c"
    using readChar_first [OF buf] by simp
  have loop: "stringLoop E buf (int (length (c # cs))) 1 acc s' =
      emitFrom E (fontShiftBy s') (fontScaleBy s') cs acc s'" for acc s'
    using stringLoop_eq [OF assms buf, of 1 E acc s'] by simp
  have body: "insertString_body E (c # cs) s =
     (case insertGlyphCharacter E c 0 (fontShiftBy s) (fontScaleBy s) s of
        Inl f \<Rightarrow> Inl f
      | Inr (advanceBy, s') \<Rightarrow> stringLoop E buf (int (length (c # cs))) 1 advanceBy s')"
  proof -
    have buf': "textCharArr (int (length (c # cs))) (c # cs) = Inr buf"
      using buf by (simp only: len)
    show ?thesis
      by (simp only: insertString_body_def Let_def len buf' rd sum.case)
  qed
  show ?thesis
  proof (cases "glyph_ok (E c)")
    case False
    then show ?thesis unfolding body by (simp add: insertGlyphCharacter_eq)
  next
    case True
    let ?s1 = "appended (glyphPoints (bezierType s) 0 (fontShiftBy s) (fontScaleBy s)
                 (fontYShiftBy s) (E c)) (s\<lparr>myGlyph := E c\<rparr>)"
    have run: "insertGlyphCharacter E c 0 (fontShiftBy s) (fontScaleBy s) s =
        Inr (advance (E c), ?s1)"
      using True by (simp add: insertGlyphCharacter_eq)
    have "stringLoop E buf (int (length (c # cs))) 1 (advance (E c)) ?s1 =
        emitFrom E (fontShiftBy s) (fontScaleBy s) cs (advance (E c)) ?s1"
      using loop [of "advance (E c)" ?s1] by simp
    then show ?thesis
      unfolding body run by (simp only: sum.case prod.case)
  qed
qed

lemma insertString_body_Nil:
  "insertString_body E [] s = insertGlyphCharacter E NUL 0 (fontShiftBy s) (fontScaleBy s) s"
proof -
  have len: "textLenght_of [] = 0" by (simp add: textLenght_of_def)
  have buf: "textCharArr 0 [] = Inr [Some NUL]"
    by (simp add: textCharArr_def INT_MAX_def)
  have loop: "stringLoop E b 0 (Suc 0) a s' = Inr (a, s')" for b a s'
    by (subst stringLoop.simps) simp
  have rd: "readChar [Some NUL] 0 = Inr NUL"
    by (simp add: readChar_def)
  have body: "insertString_body E [] s =
     (case insertGlyphCharacter E NUL 0 (fontShiftBy s) (fontScaleBy s) s of
        Inl f \<Rightarrow> Inl f
      | Inr (advanceBy, s') \<Rightarrow> stringLoop E [Some NUL] 0 1 advanceBy s')"
    by (simp only: insertString_body_def Let_def len buf rd sum.case)
  show ?thesis
    unfolding body by (simp add: loop split: sum.splits)
qed

lemma insertString_body_overflow:
  "length text = 2147483647 \<Longrightarrow> insertString_body E text s = Inl IntegerOverflow"
  by (simp add: insertString_body_def textLenght_of_def textCharArr_def INT_MAX_def)

lemma insertString_drops:
  "insertString E text s = map_sum id snd (insertString_body E text s)"
  by (simp add: insertString_def split: sum.splits)

lemma emitFrom_total:
  "list_all (\<lambda>d. glyph_ok (E d)) cs \<Longrightarrow>
   \<exists>s'. emitFrom E sh sc cs acc s = Inr (foldl (+) acc (map (\<lambda>d. advance (E d)) cs), s')"
  by (induction cs arbitrary: acc s) (simp_all add: insertGlyphCharacter_eq)

lemma insertGlyphCharacter_returns:
  "insertGlyphCharacter E d adv sh sc s0 = Inr (a, s1) \<Longrightarrow> a = advance (E d)"
  by (simp add: insertGlyphCharacter_eq split: if_splits)

subsection \<open>A segment at its place in the glyph\<close>

lemma glyphPoints_at:
  "contours g = earlier @ (before @ seg # after) # later \<Longrightarrow>
   glyphPoints bt adv sh sc ysh g =
     concat (map (segmentPoints bt adv sh sc ysh) (concat earlier @ before)) @
     segmentPoints bt adv sh sc ysh seg @
     concat (map (segmentPoints bt adv sh sc ysh) (after @ concat later))"
  by (simp add: glyphPoints_concat)

lemma segmentPoints_quadratic:
  "segmentPoints QUADRATIC adv sh sc ysh seg =
     map (vertexOf seg adv sh sc ysh)
       (if degree seg = 1 then [0, 0, 1] else [0..<nat (degree seg + 1)])"
proof (cases "degree seg = 1")
  case True
  then show ?thesis by (simp add: segmentPoints_line_quadratic)
next
  case False
  then have one: "pointsAt QUADRATIC seg adv sh sc ysh = (\<lambda>k. [vertexOf seg adv sh sc ysh k])"
    by (simp add: fun_eq_iff pointsAt_def)
  have "concat (map (\<lambda>k. [vertexOf seg adv sh sc ysh k]) ks) = map (vertexOf seg adv sh sc ysh) ks"
    for ks by (induction ks) simp_all
  then show ?thesis
    using False by (simp add: segmentPoints_def one)
qed

lemmas run_defs =
  glyph_ok_def contour_ok_def seg_ok_def glyphPoints_def contourPoints_def segmentPoints_def
  pointsAt_def vertexOf_def appended_def upt_conv_Cons

section \<open>The claims\<close>

subsection \<open>Segments and glyphs\<close>

text \<open>
  C2. In a cubic session \<^verbatim>\<open>insertGlyphCharacter\<close> appends, for a degree-1 segment at any
  place of any contour of the glyph, exactly four points: the transformed control points
  of indices 0, 0, 1, 1, that is each endpoint twice, the duplication being of the
  control point and the transform applied to each copy. They stand in the buffer behind
  the points of the contours and segments before the segment and ahead of the points of
  those after it. The glyph's segments need their control points stored.
\<close>

theorem line_in_cubic_session:
  assumes "bezierType s = CUBIC"
    and "contours (E ch) = earlier @ (before @ seg # after) # later"
    and "degree seg = 1"
    and "glyph_ok (E ch)"
  shows "insertGlyphCharacter E ch adv sh sc s =
     Inr (advance (E ch),
          s\<lparr>myGlyph := E ch,
            vertices := vertices s @
              concat (map (segmentPoints CUBIC adv sh sc (fontYShiftBy s)) (concat earlier @ before)) @
              map (\<lambda>k. ((x seg ! k + adv + sh) * sc, (y seg ! k + fontYShiftBy s) * sc))
                [0, 0, 1, 1] @
              concat (map (segmentPoints CUBIC adv sh sc (fontYShiftBy s)) (after @ concat later))\<rparr>)"
proof -
  have seg: "segmentPoints CUBIC adv sh sc (fontYShiftBy s) seg =
      map (\<lambda>k. ((x seg ! k + adv + sh) * sc, (y seg ! k + fontYShiftBy s) * sc)) [0, 0, 1, 1]"
    using assms(3) by (simp add: segmentPoints_line_cubic vertexOf_def)
  have pts: "glyphPoints CUBIC adv sh sc (fontYShiftBy s) (E ch) =
      concat (map (segmentPoints CUBIC adv sh sc (fontYShiftBy s)) (concat earlier @ before)) @
      map (\<lambda>k. ((x seg ! k + adv + sh) * sc, (y seg ! k + fontYShiftBy s) * sc)) [0, 0, 1, 1] @
      concat (map (segmentPoints CUBIC adv sh sc (fontYShiftBy s)) (after @ concat later))"
    unfolding glyphPoints_at [OF assms(2)] seg ..
  show ?thesis
    unfolding insertGlyphCharacter_eq assms(1) pts
    using assms(4) by (simp add: appended_def)
qed

theorem line_in_cubic_session_witness:
  "insertGlyphCharacter linesFont CHR ''L'' 10 100 2 cubicSession =
     Inr (9, cubicSession\<lparr>myGlyph := twoLineGlyph,
               vertices := [(9, 9), (222, 10), (222, 10), (230, 20), (230, 20),
                            (230, 20), (230, 20), (236, 8), (236, 8)]\<rparr>)"
proof -
  have h1: "bezierType cubicSession = CUBIC" by (simp add: cubicSession_def)
  have h2: "contours (linesFont CHR ''L'') = [] @ ([lineSeg] @ lineSeg2 # []) # []"
    by (simp add: linesFont_def twoLineGlyph_def)
  have h3: "degree lineSeg2 = 1" by (simp add: lineSeg2_def)
  have h4: "glyph_ok (linesFont CHR ''L'')" by (simp add: run_defs sample_defs)
  show ?thesis
    by (subst line_in_cubic_session [where E = linesFont and ch = "CHR ''L''" and s = cubicSession
          and seg = lineSeg2 and before = "[lineSeg]" and after = "[]" and earlier = "[]"
          and later = "[]", OF h1 h2 h3 h4]) (simp add: run_defs sample_defs)
qed

text \<open>
  C3. For a glyph all of whose segments have the target degree (and store that many
  control points plus one), \<^verbatim>\<open>insertGlyphCharacter\<close> appends, for every segment in
  contour-then-segment order, its control points \<open>0 .. targetDegree\<close>, each mapped to
  \<open>((x + advance + shift) * scale, (y + fontYShiftBy) * scale)\<close>. That makes
  (number of segments) times (target degree + 1) points. The list of x coordinates is
  given by a formula without the vertical shift, and the list of y coordinates by one
  without the advance and the horizontal shift.
\<close>

theorem native_degree_glyph:
  assumes "list_all (\<lambda>seg. degree seg = int (targetDegree (bezierType s))
                       \<and> targetDegree (bezierType s) < length (x seg)
                       \<and> targetDegree (bezierType s) < length (y seg))
             (concat (contours (E ch)))"
  shows "\<exists>pts.
     insertGlyphCharacter E ch adv sh sc s =
       Inr (advance (E ch), s\<lparr>myGlyph := E ch, vertices := vertices s @ pts\<rparr>)
     \<and> pts = concat (map (\<lambda>seg. map (\<lambda>k. ((x seg ! k + adv + sh) * sc,
                                           (y seg ! k + fontYShiftBy s) * sc))
                               [0..<targetDegree (bezierType s) + 1])
                   (concat (contours (E ch))))
     \<and> length pts = length (concat (contours (E ch))) * (targetDegree (bezierType s) + 1)
     \<and> map fst pts = concat (map (\<lambda>seg. map (\<lambda>k. (x seg ! k + adv + sh) * sc)
                                       [0..<targetDegree (bezierType s) + 1])
                           (concat (contours (E ch))))
     \<and> map snd pts = concat (map (\<lambda>seg. map (\<lambda>k. (y seg ! k + fontYShiftBy s) * sc)
                                       [0..<targetDegree (bezierType s) + 1])
                           (concat (contours (E ch))))"
proof -
  let ?d = "targetDegree (bezierType s)"
  let ?segs = "concat (contours (E ch))"
  let ?P = "\<lambda>seg. map (\<lambda>k. ((x seg ! k + adv + sh) * sc, (y seg ! k + fontYShiftBy s) * sc))
                    [0..<?d + 1]"
  have ok: "glyph_ok (E ch)"
    unfolding glyph_ok_concat using assms
    by (simp add: list_all_iff seg_ok_def)
  have each: "seg \<in> set ?segs \<Longrightarrow>
      segmentPoints (bezierType s) adv sh sc (fontYShiftBy s) seg = ?P seg" for seg
    using assms by (auto simp: list_all_iff segmentPoints_native vertexOf_def)
  have pts: "glyphPoints (bezierType s) adv sh sc (fontYShiftBy s) (E ch) = concat (map ?P ?segs)"
  proof -
    have "map (segmentPoints (bezierType s) adv sh sc (fontYShiftBy s)) ?segs = map ?P ?segs"
      by (rule map_cong [OF refl]) (rule each)
    then show ?thesis
      by (simp only: glyphPoints_concat)
  qed
  have run: "insertGlyphCharacter E ch adv sh sc s =
       Inr (advance (E ch), s\<lparr>myGlyph := E ch, vertices := vertices s @ concat (map ?P ?segs)\<rparr>)"
    by (simp add: insertGlyphCharacter_eq ok pts appended_def)
  have len: "length (concat (map ?P ?segs)) = length ?segs * (?d + 1)"
    by (rule length_concat_const) (simp add: list_all_iff)
  have xs: "map fst (concat (map ?P ?segs)) =
      concat (map (\<lambda>seg. map (\<lambda>k. (x seg ! k + adv + sh) * sc) [0..<?d + 1]) ?segs)"
    by (simp add: map_concat o_def)
  have ys: "map snd (concat (map ?P ?segs)) =
      concat (map (\<lambda>seg. map (\<lambda>k. (y seg ! k + fontYShiftBy s) * sc) [0..<?d + 1]) ?segs)"
    by (simp add: map_concat o_def)
  show ?thesis
    using run len xs ys by blast
qed

theorem native_degree_glyph_witness:
  "insertGlyphCharacter sampleFont CHR ''B'' 10 100 2 quadSession =
     Inr (6, quadSession\<lparr>myGlyph := quadGlyph,
               vertices := [(9, 9), (222, 10), (226, 22), (230, 10),
                            (222, 10), (226, 22), (230, 10)]\<rparr>)"
proof -
  have h: "list_all (\<lambda>seg. degree seg = int (targetDegree (bezierType quadSession))
                       \<and> targetDegree (bezierType quadSession) < length (x seg)
                       \<and> targetDegree (bezierType quadSession) < length (y seg))
             (concat (contours (sampleFont CHR ''B'')))"
    by (simp add: sample_defs targetDegree_def)
  from native_degree_glyph [where E = sampleFont and ch = "CHR ''B''" and s = quadSession
      and adv = 10 and sh = 100 and sc = 2, OF h]
  obtain pts where
    run: "insertGlyphCharacter sampleFont CHR ''B'' 10 100 2 quadSession =
       Inr (advance (sampleFont CHR ''B''),
            quadSession\<lparr>myGlyph := sampleFont CHR ''B'', vertices := vertices quadSession @ pts\<rparr>)"
    and pts: "pts = concat (map (\<lambda>seg. map (\<lambda>k. ((x seg ! k + 10 + 100) * 2,
                                           (y seg ! k + fontYShiftBy quadSession) * 2))
                               [0..<targetDegree (bezierType quadSession) + 1])
                   (concat (contours (sampleFont CHR ''B''))))"
    by blast
  have "pts = [(222, 10), (226, 22), (230, 10), (222, 10), (226, 22), (230, 10)]"
    unfolding pts by (simp add: sample_defs targetDegree_def upt_conv_Cons)
  then show ?thesis
    unfolding run by (simp add: sample_defs)
qed

text \<open>
  C6. For a glyph all of whose segments have degree 1 or the target degree (and store
  their control points), the number of points \<^verbatim>\<open>insertGlyphCharacter\<close> appends is the
  number of segments times (target degree + 1), a multiple of the patch size.
\<close>

theorem whole_patches_only:
  assumes "list_all (\<lambda>seg. (degree seg = 1 \<or> degree seg = int (targetDegree (bezierType s)))
                       \<and> degree seg < int (length (x seg))
                       \<and> degree seg < int (length (y seg)))
             (concat (contours (E ch)))"
  shows "\<exists>pts.
     insertGlyphCharacter E ch adv sh sc s =
       Inr (advance (E ch), s\<lparr>myGlyph := E ch, vertices := vertices s @ pts\<rparr>)
     \<and> length pts = length (concat (contours (E ch))) * (targetDegree (bezierType s) + 1)
     \<and> (targetDegree (bezierType s) + 1) dvd length pts"
proof -
  let ?segs = "concat (contours (E ch))"
  let ?pts = "glyphPoints (bezierType s) adv sh sc (fontYShiftBy s) (E ch)"
  have ok: "glyph_ok (E ch)"
    unfolding glyph_ok_concat using assms by (simp add: list_all_iff seg_ok_def)
  have run: "insertGlyphCharacter E ch adv sh sc s =
       Inr (advance (E ch), s\<lparr>myGlyph := E ch, vertices := vertices s @ ?pts\<rparr>)"
    by (simp add: insertGlyphCharacter_eq ok appended_def)
  have len: "length ?pts = length ?segs * (targetDegree (bezierType s) + 1)"
    unfolding glyphPoints_concat
    by (rule length_concat_const) (use assms in \<open>simp add: list_all_iff length_segmentPoints\<close>)
  have "(targetDegree (bezierType s) + 1) dvd length ?pts"
    unfolding len by (rule dvd_triv_right)
  then show ?thesis using run len by blast
qed

theorem whole_patches_only_witness:
  "\<exists>pts. insertGlyphCharacter sampleFont CHR ''A'' 10 100 2 quadSession =
       Inr (4, quadSession\<lparr>myGlyph := mixedGlyph, vertices := [(9, 9)] @ pts\<rparr>)
     \<and> length pts = 2 * 3 \<and> 3 dvd length pts"
proof -
  have h: "list_all (\<lambda>seg. (degree seg = 1 \<or> degree seg = int (targetDegree (bezierType quadSession)))
                       \<and> degree seg < int (length (x seg))
                       \<and> degree seg < int (length (y seg)))
             (concat (contours (sampleFont CHR ''A'')))"
    by (simp add: sample_defs targetDegree_def)
  from whole_patches_only [where E = sampleFont and ch = "CHR ''A''" and s = quadSession
      and adv = 10 and sh = 100 and sc = 2, OF h]
  obtain pts where
    "insertGlyphCharacter sampleFont CHR ''A'' 10 100 2 quadSession =
       Inr (advance (sampleFont CHR ''A''),
            quadSession\<lparr>myGlyph := sampleFont CHR ''A'', vertices := vertices quadSession @ pts\<rparr>)"
    and "length pts = length (concat (contours (sampleFont CHR ''A''))) *
           (targetDegree (bezierType quadSession) + 1)"
    and "(targetDegree (bezierType quadSession) + 1) dvd length pts"
    by blast
  then have "insertGlyphCharacter sampleFont CHR ''A'' 10 100 2 quadSession =
       Inr (4, quadSession\<lparr>myGlyph := mixedGlyph, vertices := [(9, 9)] @ pts\<rparr>)
     \<and> length pts = 2 * 3 \<and> 3 dvd length pts"
    by (simp add: sample_defs targetDegree_def)
  then show ?thesis ..
qed

text \<open>
  C8. \<^verbatim>\<open>insertGlyphCharacter\<close> only appends: whenever the call returns, the vertex buffer
  before the call is a prefix of the buffer after it. The call returns whenever every
  segment of the glyph stores the control points its degree asks for.
\<close>

theorem append_only:
  "(glyph_ok (E ch) \<longrightarrow> (\<exists>a s'. insertGlyphCharacter E ch adv sh sc s = Inr (a, s')))
   \<and> (\<forall>a s'. insertGlyphCharacter E ch adv sh sc s = Inr (a, s')
         \<longrightarrow> prefix (vertices s) (vertices s')
           \<and> take (length (vertices s)) (vertices s') = vertices s)"
  by (simp add: insertGlyphCharacter_eq)

theorem append_only_witness:
  "glyph_ok (sampleFont CHR ''A'')
   \<and> (\<exists>a s'. insertGlyphCharacter sampleFont CHR ''A'' 10 100 2 quadSession = Inr (a, s')
         \<and> prefix (vertices quadSession) (vertices s'))"
proof -
  have ok: "glyph_ok (sampleFont CHR ''A'')"
    by (simp add: glyph_ok_def contour_ok_def seg_ok_def sample_defs)
  note inst = append_only [of sampleFont "CHR ''A''" 10 100 2 quadSession]
  from inst ok obtain a s' where
    run: "insertGlyphCharacter sampleFont CHR ''A'' 10 100 2 quadSession = Inr (a, s')"
    by blast
  with inst have "prefix (vertices quadSession) (vertices s')" by blast
  with ok run show ?thesis by blast
qed

subsection \<open>Lines in a quadratic session\<close>

text \<open>
  C9. In a quadratic session \<^verbatim>\<open>insertGlyphCharacter\<close> appends, for a degree-1 segment at
  any place of any contour of the glyph, exactly three points: the transformed control
  points of indices 0, 0, 1. They stand behind the points of the contours and segments
  \<open>before\<close> the segment and ahead of the points of those \<open>after\<close> it, whether the segment
  is the first of its contour (\<open>before = []\<close>) or not. The index test \<^verbatim>\<open>k == 0\<close> of the
  source is on the control point, not on the segment.
\<close>

theorem line_in_quadratic_session_any_position:
  assumes "bezierType s = QUADRATIC"
    and "contours (E ch) = earlier @ (before @ seg # after) # later"
    and "degree seg = 1"
    and "glyph_ok (E ch)"
  shows "insertGlyphCharacter E ch adv sh sc s =
     Inr (advance (E ch),
          s\<lparr>myGlyph := E ch,
            vertices := vertices s @
              concat (map (segmentPoints QUADRATIC adv sh sc (fontYShiftBy s)) (concat earlier @ before)) @
              map (\<lambda>k. ((x seg ! k + adv + sh) * sc, (y seg ! k + fontYShiftBy s) * sc))
                [0, 0, 1] @
              concat (map (segmentPoints QUADRATIC adv sh sc (fontYShiftBy s)) (after @ concat later))\<rparr>)"
proof -
  have seg: "segmentPoints QUADRATIC adv sh sc (fontYShiftBy s) seg =
      map (\<lambda>k. ((x seg ! k + adv + sh) * sc, (y seg ! k + fontYShiftBy s) * sc)) [0, 0, 1]"
    using assms(3) by (simp add: segmentPoints_line_quadratic vertexOf_def)
  have pts: "glyphPoints QUADRATIC adv sh sc (fontYShiftBy s) (E ch) =
      concat (map (segmentPoints QUADRATIC adv sh sc (fontYShiftBy s)) (concat earlier @ before)) @
      map (\<lambda>k. ((x seg ! k + adv + sh) * sc, (y seg ! k + fontYShiftBy s) * sc)) [0, 0, 1] @
      concat (map (segmentPoints QUADRATIC adv sh sc (fontYShiftBy s)) (after @ concat later))"
    unfolding glyphPoints_at [OF assms(2)] seg ..
  show ?thesis
    unfolding insertGlyphCharacter_eq assms(1) pts
    using assms(4) by (simp add: appended_def)
qed

theorem line_in_quadratic_session_any_position_witness:
  "insertGlyphCharacter linesFont CHR ''L'' 10 100 2 quadSession =
     Inr (9, quadSession\<lparr>myGlyph := twoLineGlyph,
               vertices := [(9, 9), (222, 10), (222, 10), (230, 20),
                            (230, 20), (230, 20), (236, 8)]\<rparr>)"
proof -
  have h1: "bezierType quadSession = QUADRATIC" by (simp add: quadSession_def)
  have h2: "contours (linesFont CHR ''L'') = [] @ ([lineSeg] @ lineSeg2 # []) # []"
    by (simp add: linesFont_def twoLineGlyph_def)
  have h3: "degree lineSeg2 = 1" by (simp add: lineSeg2_def)
  have h4: "glyph_ok (linesFont CHR ''L'')" by (simp add: run_defs sample_defs)
  show ?thesis
    by (subst line_in_quadratic_session_any_position [where E = linesFont and ch = "CHR ''L''"
          and s = quadSession and seg = lineSeg2 and before = "[lineSeg]" and after = "[]"
          and earlier = "[]" and later = "[]", OF h1 h2 h3 h4])
       (simp add: run_defs sample_defs)
qed

text \<open>
  C1. The claim has a second degree-1 segment of a contour append two points only. It
  fails on a glyph of one contour of two lines: \<^verbatim>\<open>insertGlyphCharacter\<close> appends three
  points for each line, six in all, not the five the claim gives.
\<close>

theorem second_line_in_quadratic_session_counterexample:
  "insertGlyphCharacter linesFont CHR ''L'' 0 0 1 quadSession =
     Inr (9, quadSession\<lparr>myGlyph := twoLineGlyph,
               vertices := [(9, 9)] @ [(1, 5), (1, 5), (5, 10)] @ [(5, 10), (5, 10), (8, 4)]\<rparr>)
   \<and> insertGlyphCharacter linesFont CHR ''L'' 0 0 1 quadSession \<noteq>
     Inr (9, quadSession\<lparr>myGlyph := twoLineGlyph,
               vertices := [(9, 9)] @ [(1, 5), (1, 5), (5, 10)] @ [(5, 10), (8, 4)]\<rparr>)"
  by (simp add: insertGlyphCharacter_eq run_defs sample_defs)

text \<open>
  C1, amended. In a quadratic session \<^verbatim>\<open>insertGlyphCharacter\<close> appends, for every segment
  of every contour in order, the transformed control points of indices 0, 0, 1 when the
  segment has degree 1, and of indices \<open>0 .. degree\<close> otherwise. Every degree-1 segment,
  the first of its contour and every later one alike, gets its three points; none gets
  two. The glyph's segments need their control points stored.
\<close>

theorem lines_in_quadratic_session:
  assumes "bezierType s = QUADRATIC" and "glyph_ok (E ch)"
  shows "insertGlyphCharacter E ch adv sh sc s =
     Inr (advance (E ch),
          s\<lparr>myGlyph := E ch,
            vertices := vertices s @
              concat (map (\<lambda>seg. map (\<lambda>k. ((x seg ! k + adv + sh) * sc,
                                             (y seg ! k + fontYShiftBy s) * sc))
                                 (if degree seg = 1 then [0, 0, 1]
                                  else [0..<nat (degree seg + 1)]))
                      (concat (contours (E ch))))\<rparr>)"
proof -
  have each: "segmentPoints QUADRATIC adv sh sc (fontYShiftBy s) =
      (\<lambda>seg. map (\<lambda>k. ((x seg ! k + adv + sh) * sc, (y seg ! k + fontYShiftBy s) * sc))
                (if degree seg = 1 then [0, 0, 1] else [0..<nat (degree seg + 1)]))"
  proof
    fix seg :: "'a MySegment"
    have v: "vertexOf seg adv sh sc (fontYShiftBy s) =
        (\<lambda>k. ((x seg ! k + adv + sh) * sc, (y seg ! k + fontYShiftBy s) * sc))"
      by (simp add: fun_eq_iff vertexOf_def)
    show "segmentPoints QUADRATIC adv sh sc (fontYShiftBy s) seg =
        map (\<lambda>k. ((x seg ! k + adv + sh) * sc, (y seg ! k + fontYShiftBy s) * sc))
          (if degree seg = 1 then [0, 0, 1] else [0..<nat (degree seg + 1)])"
      unfolding segmentPoints_quadratic v ..
  qed
  show ?thesis
    unfolding insertGlyphCharacter_eq assms(1) glyphPoints_concat each
    using assms(2) by (simp add: appended_def)
qed

theorem lines_in_quadratic_session_witness:
  "insertGlyphCharacter linesFont CHR ''L'' 1 0 1 quadSession =
     Inr (9, quadSession\<lparr>myGlyph := twoLineGlyph,
               vertices := [(9, 9), (2, 5), (2, 5), (6, 10), (6, 10), (6, 10), (9, 4)]\<rparr>)"
proof -
  have h1: "bezierType quadSession = QUADRATIC" by (simp add: quadSession_def)
  have h2: "glyph_ok (linesFont CHR ''L'')" by (simp add: run_defs sample_defs)
  show ?thesis
    by (subst lines_in_quadratic_session [where E = linesFont and ch = "CHR ''L''"
          and s = quadSession, OF h1 h2]) (simp add: sample_defs)
qed

subsection \<open>Texts\<close>

text \<open>
  C4. The claim has \<^verbatim>\<open>insertString\<close> return the final accumulated advance, for the
  characters of the text. The function is \<^verbatim>\<open>void\<close>: for two fonts that differ in the
  advance of \<open>A\<close> only (and have empty outlines), the accumulator ends at 3 for one and
  at 7 for the other, while what \<^verbatim>\<open>insertString\<close> hands back is the same for both.
  A character behind a NUL inside the text is never copied into the buffer, so the
  third glyph of \<open>A NUL B\<close> is read from an unwritten cell; and on a text of \<open>2^31 - 1\<close>
  characters the size of the buffer overflows before any glyph is inserted.
\<close>

theorem insertString_returns_advance_counterexample:
  "insertString narrowFont ''AB'' quadSession = insertString wideFont ''AB'' quadSession
   \<and> insertString_body narrowFont ''AB'' quadSession =
       Inr (1 + 2, quadSession\<lparr>myGlyph := \<lparr>contours = [], advance = 2\<rparr>\<rparr>)
   \<and> insertString_body wideFont ''AB'' quadSession =
       Inr (5 + 2, quadSession\<lparr>myGlyph := \<lparr>contours = [], advance = 2\<rparr>\<rparr>)
   \<and> insertString_body narrowFont [CHR ''A'', CHR 0x00, CHR ''B''] quadSession =
       Inl UninitialisedRead
   \<and> insertString wideFont (replicate 2147483647 (CHR ''B'')) quadSession =
       Inl IntegerOverflow"
proof -
  have l: "length ''AB'' < 2147483647" by simp
  have h: "NUL \<notin> set (butlast ''AB'')" by (simp add: NUL_def)
  have n: "insertString_body narrowFont ''AB'' quadSession =
       Inr (1 + 2, quadSession\<lparr>myGlyph := \<lparr>contours = [], advance = 2\<rparr>\<rparr>)"
    by (simp add: insertString_body_Cons [OF l h] insertGlyphCharacter_eq glyph_ok_def
        glyphPoints_def narrowFont_def sample_defs)
  have w: "insertString_body wideFont ''AB'' quadSession =
       Inr (5 + 2, quadSession\<lparr>myGlyph := \<lparr>contours = [], advance = 2\<rparr>\<rparr>)"
    by (simp add: insertString_body_Cons [OF l h] insertGlyphCharacter_eq glyph_ok_def
        glyphPoints_def wideFont_def sample_defs)
  have same: "insertString narrowFont ''AB'' quadSession = insertString wideFont ''AB'' quadSession"
    by (simp add: insertString_drops n w)
  have ok: "glyph_ok (narrowFont d)" for d
    by (simp add: glyph_ok_def narrowFont_def)
  have u: "insertString_body narrowFont [CHR ''A'', CHR 0x00, CHR ''B''] quadSession =
       Inl UninitialisedRead"
    by (simp add: insertString_body_def textLenght_of_def textCharArr_def INT_MAX_def NUL_def
        readChar_def insertGlyphCharacter_eq ok stringLoop.simps)
  have o: "insertString wideFont (replicate 2147483647 (CHR ''B'')) quadSession =
       Inl IntegerOverflow"
    by (simp add: insertString_drops insertString_body_overflow)
  show ?thesis
    using same n w u o by (intro conjI)
qed

text \<open>
  C4, amended. \<^verbatim>\<open>insertGlyphCharacter\<close> returns the advance of the glyph it extracted,
  whatever the offset, shift and scale it was called with. For a text \<open>c # cs\<close> shorter
  than \<open>2^31 - 1\<close> characters that has no NUL before its last character,
  \<^verbatim>\<open>insertString\<close> inserts \<open>c\<close> at offset 0 and keeps the returned advance in its local
  accumulator; every further character is inserted at the running accumulator, and its
  returned advance is added; the shift and the scale are those of the entry state for
  every glyph. When every glyph stores its control points the run ends with the
  accumulator holding the advances summed from left to right. \<^verbatim>\<open>insertString\<close> itself
  hands back the globals only: the accumulator is dropped.
\<close>

theorem advance_accumulation:
  assumes "length (c # cs) < 2147483647" and "NUL \<notin> set (butlast (c # cs))"
  shows "(\<forall>d adv sh sc s0 a s1.
            insertGlyphCharacter E d adv sh sc s0 = Inr (a, s1) \<longrightarrow> a = advance (E d))
     \<and> insertString_body E (c # cs) s =
         (case insertGlyphCharacter E c 0 (fontShiftBy s) (fontScaleBy s) s of
            Inl f \<Rightarrow> Inl f
          | Inr (a, s') \<Rightarrow> emitFrom E (fontShiftBy s) (fontScaleBy s) cs a s')
     \<and> (list_all (\<lambda>d. glyph_ok (E d)) (c # cs) \<longrightarrow>
          (\<exists>s'. insertString_body E (c # cs) s =
             Inr (foldl (+) (advance (E c)) (map (\<lambda>d. advance (E d)) cs), s')))
     \<and> insertString E (c # cs) s = map_sum id snd (insertString_body E (c # cs) s)"
proof -
  have ret: "\<forall>d adv sh sc s0 a s1.
            insertGlyphCharacter E d adv sh sc s0 = Inr (a, s1) \<longrightarrow> a = advance (E d)"
    using insertGlyphCharacter_returns by blast
  have body: "insertString_body E (c # cs) s =
         (case insertGlyphCharacter E c 0 (fontShiftBy s) (fontScaleBy s) s of
            Inl f \<Rightarrow> Inl f
          | Inr (a, s') \<Rightarrow> emitFrom E (fontShiftBy s) (fontScaleBy s) cs a s')"
    using assms by (rule insertString_body_Cons)
  have total: "\<exists>s'. insertString_body E (c # cs) s =
             Inr (foldl (+) (advance (E c)) (map (\<lambda>d. advance (E d)) cs), s')"
    if ok: "list_all (\<lambda>d. glyph_ok (E d)) (c # cs)"
  proof -
    from ok have okc: "glyph_ok (E c)" and okcs: "list_all (\<lambda>d. glyph_ok (E d)) cs"
      by simp_all
    show ?thesis
      unfolding body using emitFrom_total[OF okcs]
      by (simp add: insertGlyphCharacter_eq okc)
  qed
  show ?thesis
    using ret body total insertString_drops by blast
qed

theorem advance_accumulation_witness:
  "length [CHR ''A'', CHR ''B'', CHR 0x00] < 2147483647
   \<and> NUL \<notin> set (butlast [CHR ''A'', CHR ''B'', CHR 0x00])
   \<and> list_all (\<lambda>d. glyph_ok (sampleFont d)) [CHR ''A'', CHR ''B'', CHR 0x00]
   \<and> (\<exists>s'. insertString_body sampleFont [CHR ''A'', CHR ''B'', CHR 0x00] quadSession =
         Inr (4 + 6 + 7, s'))"
proof -
  have l: "length [CHR ''A'', CHR ''B'', CHR 0x00] < 2147483647" by simp
  have h: "NUL \<notin> set (butlast [CHR ''A'', CHR ''B'', CHR 0x00])" by (simp add: NUL_def)
  have ok: "list_all (\<lambda>d. glyph_ok (sampleFont d)) [CHR ''A'', CHR ''B'', CHR 0x00]"
    by (simp add: glyph_ok_def contour_ok_def seg_ok_def sample_defs)
  from advance_accumulation [OF l h, of sampleFont quadSession] ok
  have "\<exists>s'. insertString_body sampleFont [CHR ''A'', CHR ''B'', CHR 0x00] quadSession =
      Inr (foldl (+) (advance (sampleFont CHR ''A''))
             (map (\<lambda>d. advance (sampleFont d)) [CHR ''B'', CHR 0x00]), s')"
    by blast
  then have "\<exists>s'. insertString_body sampleFont [CHR ''A'', CHR ''B'', CHR 0x00] quadSession =
      Inr (4 + 6 + 7, s')"
    by (simp add: sample_defs)
  with l h ok show ?thesis by blast
qed

text \<open>
  C7. For every font whose glyphs for \<open>A\<close> and \<open>B\<close> store their control points, and every
  session state, the accumulator of \<^verbatim>\<open>insertString\<close> ends at
  \<open>advance A + advance B\<close> on the text \<open>AB\<close>, at \<open>advance A\<close> on the text \<open>A\<close> and at
  \<open>advance B\<close> on the text \<open>B\<close>: the first is the sum of the other two.
\<close>

theorem advance_of_AB:
  assumes "glyph_ok (E CHR ''A'')" and "glyph_ok (E CHR ''B'')"
  shows "\<exists>sAB sA sB.
     insertString_body E ''AB'' s = Inr (advance (E CHR ''A'') + advance (E CHR ''B''), sAB)
     \<and> insertString_body E ''A'' s = Inr (advance (E CHR ''A''), sA)
     \<and> insertString_body E ''B'' s = Inr (advance (E CHR ''B''), sB)"
proof -
  have lAB: "length ''AB'' < 2147483647" and lA: "length ''A'' < 2147483647"
    and lB: "length ''B'' < 2147483647"
    by simp_all
  have hAB: "NUL \<notin> set (butlast ''AB'')" and hA: "NUL \<notin> set (butlast ''A'')"
    and hB: "NUL \<notin> set (butlast ''B'')"
    by (simp_all add: NUL_def)
  show ?thesis
    using assms
    by (simp add: insertString_body_Cons [OF lAB hAB] insertString_body_Cons [OF lA hA]
        insertString_body_Cons [OF lB hB] insertGlyphCharacter_eq)
qed

theorem advance_of_AB_witness:
  "\<exists>sAB sA sB.
     insertString_body sampleFont ''AB'' quadSession = Inr (10, sAB)
     \<and> insertString_body sampleFont ''A'' quadSession = Inr (4, sA)
     \<and> insertString_body sampleFont ''B'' quadSession = Inr (6, sB)"
proof -
  have a: "glyph_ok (sampleFont CHR ''A'')" and b: "glyph_ok (sampleFont CHR ''B'')"
    by (simp_all add: glyph_ok_def contour_ok_def seg_ok_def sample_defs)
  have adv: "advance (sampleFont CHR ''A'') = 4" "advance (sampleFont CHR ''B'') = 6"
    by (simp_all add: sample_defs)
  from advance_of_AB [OF a b, of quadSession] show ?thesis
    by (simp add: adv)
qed




text \<open>
  C5. The claim has \<^verbatim>\<open>insertString\<close> append nothing and give 0 on the empty text. With a
  font whose glyph for character code 0 has an outline of one line, \<^verbatim>\<open>insertString\<close> in
  a quadratic session appends three points on the empty text and leaves 7, the advance
  of that glyph, in the accumulator.
\<close>

theorem empty_text_is_not_a_no_op:
  "insertString_body sampleFont [] quadSession =
     Inr (7, quadSession\<lparr>myGlyph := notdefGlyph,
               vertices := vertices quadSession @ [(202, 10), (202, 10), (210, 20)]\<rparr>)"
  by (simp add: insertString_body_Nil insertGlyphCharacter_eq run_defs NUL_def sample_defs)

text \<open>
  C5, amended. On the empty text \<^verbatim>\<open>insertString\<close> does not fault on the read of the
  first character; it takes the NUL terminator for it and inserts the glyph of
  character code 0 at offset 0 with the shift and scale of the session: the points of
  that glyph are appended (none only when the glyph has none), the accumulator ends at
  the advance of that glyph, and nothing is returned. The glyph's segments need their
  control points stored.
\<close>

theorem empty_text_appends_glyph_zero:
  assumes "glyph_ok (E (CHR 0x00))"
  shows "textCharArr (textLenght_of []) [] = Inr [Some (CHR 0x00)]
   \<and> readChar [Some (CHR 0x00)] 0 = Inr (CHR 0x00)
   \<and> insertString_body E [] s =
       Inr (advance (E (CHR 0x00)),
            s\<lparr>myGlyph := E (CHR 0x00),
              vertices := vertices s @
                glyphPoints (bezierType s) 0 (fontShiftBy s) (fontScaleBy s) (fontYShiftBy s)
                  (E (CHR 0x00))\<rparr>)
   \<and> insertString E [] s =
       Inr (s\<lparr>myGlyph := E (CHR 0x00),
              vertices := vertices s @
                glyphPoints (bezierType s) 0 (fontShiftBy s) (fontScaleBy s) (fontYShiftBy s)
                  (E (CHR 0x00))\<rparr>)"
proof -
  have cell: "textCharArr (textLenght_of []) [] = Inr [Some (CHR 0x00)]"
    by (simp add: textLenght_of_def textCharArr_def INT_MAX_def NUL_def)
  have rd: "readChar [Some (CHR 0x00)] 0 = Inr (CHR 0x00)"
    by (simp add: readChar_def)
  have body: "insertString_body E [] s =
       Inr (advance (E (CHR 0x00)),
            s\<lparr>myGlyph := E (CHR 0x00),
              vertices := vertices s @
                glyphPoints (bezierType s) 0 (fontShiftBy s) (fontScaleBy s) (fontYShiftBy s)
                  (E (CHR 0x00))\<rparr>)"
    using assms by (simp add: insertString_body_Nil insertGlyphCharacter_eq NUL_def appended_def)
  show ?thesis
    using cell rd body by (simp add: insertString_drops)
qed

theorem empty_text_appends_glyph_zero_witness:
  "insertString_body sampleFont [] cubicSession =
     Inr (7, cubicSession\<lparr>myGlyph := notdefGlyph,
               vertices := [(9, 9), (202, 10), (202, 10), (210, 20), (210, 20)]\<rparr>)
   \<and> insertString sampleFont [] cubicSession =
     Inr (cubicSession\<lparr>myGlyph := notdefGlyph,
            vertices := [(9, 9), (202, 10), (202, 10), (210, 20), (210, 20)]\<rparr>)"
proof -
  have ok: "glyph_ok (sampleFont (CHR 0x00))" by (simp add: run_defs sample_defs)
  from empty_text_appends_glyph_zero [where E = sampleFont and s = cubicSession, OF ok] show ?thesis
    by (simp add: run_defs sample_defs)
qed

end
